theory Spec2Isabelle
  imports Complex_Main "HOL-Library.Word" "HOL-Library.Signed_Division"
begin

section \<open>Machine types and undefined behaviour\<close>

text \<open>
  The firmware targets the Arduino Nano (ATmega328P, avr-gcc): \<open>size_t\<close> is a 16-bit
  unsigned integer. Unsigned arithmetic wraps; a read outside an array and a division by
  zero are undefined behaviour in C++ and are results of their own in the model.
\<close>

type_synonym uint8_t = "8 word"
type_synonym uint16_t = "16 word"
type_synonym uint32_t = "32 word"
type_synonym int16_t = "16 word"
type_synonym int64_t = "64 word"
type_synonym size_t = "16 word"

datatype error = OutOfBounds nat | DivisionByZero

section \<open>Config.h\<close>

definition MAX_VALUE :: uint16_t where
  "MAX_VALUE = push_bit 10 1 - 1"

definition PULLUP_FIXED_RESISTOR_OHMS :: uint16_t where
  "PULLUP_FIXED_RESISTOR_OHMS = 12700"

section \<open>VoltageDividerResistanceConverter\<close>

record VoltageDividerResistanceConverter =
  fixedResistor :: uint16_t
  vd_initialize :: bool

definition new_VoltageDividerResistanceConverter :: "uint16_t \<Rightarrow> VoltageDividerResistanceConverter" where
  "new_VoltageDividerResistanceConverter pullup_Ohms =
     \<lparr> fixedResistor = (if pullup_Ohms = 0 then PULLUP_FIXED_RESISTOR_OHMS else pullup_Ohms),
       vd_initialize = False \<rparr>"

text \<open>
  \<open>convertToResistance_x10\<close>: the product is formed in \<open>uint32_t\<close>, the divisor
  \<open>Adc::MAX_VALUE - adc_raw\<close> in 16 bits and then widened for the division.
\<close>

definition convertToResistance_x10 ::
  "VoltageDividerResistanceConverter \<Rightarrow> uint16_t \<Rightarrow> error + uint32_t" where
  "convertToResistance_x10 c adc_raw =
     (if adc_raw = 0 \<or> adc_raw > MAX_VALUE then Inr 0
      else if MAX_VALUE - adc_raw = 0 then Inl DivisionByZero
      else Inr ((ucast adc_raw * ucast (fixedResistor c) * 10) div ucast (MAX_VALUE - adc_raw)))"

section \<open>lut_utils.h: binary search over a monotonic table\<close>

datatype LutOrder = DECREASING | INCREASING | AUTO

record LutBracket =
  lowerIdx :: size_t
  upperIdx :: size_t
  exactIdx :: size_t
  foundExact :: bool
  outOfRange :: bool
  clamped :: bool

definition SIZE_MAX :: size_t where
  "SIZE_MAX = - 1"

text \<open>The default constructor of \<open>LutBracket\<close>.\<close>

definition new_LutBracket :: LutBracket where
  "new_LutBracket =
     \<lparr> lowerIdx = 0, upperIdx = 0, exactIdx = SIZE_MAX,
       foundExact = False, outOfRange = False, clamped = False \<rparr>"

text \<open>
  Array subscript \<open>lut[i]\<close> on a C array of \<open>length lut\<close> elements: a read at an index
  outside \<open>[0, N-1]\<close> is undefined behaviour, reported as \<open>OutOfBounds i\<close>.
\<close>

definition element_at :: "'e list \<Rightarrow> size_t \<Rightarrow> error + 'e" where
  "element_at lut i = (if unat i < length lut then Inr (lut ! unat i) else Inl (OutOfBounds (unat i)))"

text \<open>The template parameter \<open>N\<close>, the array size as a \<open>size_t\<close>.\<close>

definition array_size :: "'e list \<Rightarrow> size_t" where
  "array_size lut = of_nat (length lut)"

text \<open>
  Step 3 of \<open>binarySearchLut\<close>, the code after the loop: the bracket for the final bounds.
  \<open>N - 1\<close> and \<open>N - 2\<close> are \<open>size_t\<close> subtractions.
\<close>

definition bracketing :: "size_t \<Rightarrow> LutBracket \<Rightarrow> size_t \<Rightarrow> size_t \<Rightarrow> LutBracket" where
  "bracketing N result left right =
     (let result' =
        (if left = 0 then
           result\<lparr> lowerIdx := 0, upperIdx := 1, clamped := True \<rparr>
         else if right \<ge> N - 1 then
           result\<lparr> lowerIdx := N - 2, upperIdx := N - 1, clamped := True \<rparr>
         else
           result\<lparr> lowerIdx := right, upperIdx := left, outOfRange := False, clamped := False \<rparr>)
      in result'\<lparr> foundExact := False \<rparr>)"

text \<open>
  Step 2, the \<open>while (left <= right)\<close> loop, followed by step 3 when the loop is left without
  a match. \<open>left\<close>, \<open>right\<close> and \<open>mid\<close> are \<open>size_t\<close>: \<open>mid - 1\<close> at \<open>mid = 0\<close> wraps to
  \<open>SIZE_MAX\<close>. The loop need not terminate, so the result is an option: \<open>None\<close> is a search that
  runs forever, \<open>Some (Inl e)\<close> one that runs into undefined behaviour.
\<close>

partial_function (option) search_from ::
  "'e list \<Rightarrow> 'k::linorder \<Rightarrow> ('e \<Rightarrow> 'k) \<Rightarrow> LutOrder \<Rightarrow> LutBracket \<Rightarrow> size_t \<Rightarrow> size_t
     \<Rightarrow> (error + LutBracket) option" where
  "search_from lut target proj order result left right =
     (if left \<le> right then
        (let mid = left + (right - left) div 2 in
         case element_at lut mid of
           Inl e \<Rightarrow> Some (Inl e)
         | Inr entry \<Rightarrow>
             (let midKey = proj entry in
              if midKey = target then
                Some (Inr (result\<lparr> exactIdx := mid, foundExact := True, lowerIdx := mid,
                                   upperIdx := mid, outOfRange := False, clamped := False \<rparr>))
              else
                (let isTargetLessThanMid = (target < midKey);
                     goLeft = (if order = INCREASING then isTargetLessThanMid
                               else \<not> isTargetLessThanMid)
                 in if goLeft then search_from lut target proj order result left (mid - 1)
                    else search_from lut target proj order result (mid + 1) right)))
      else Some (Inr (bracketing (array_size lut) result left right)))"

text \<open>Step 1: the order, detected from the first two keys when it is \<open>AUTO\<close>.\<close>

definition determine_order :: "'e list \<Rightarrow> ('e \<Rightarrow> 'k::linorder) \<Rightarrow> LutOrder \<Rightarrow> error + LutOrder" where
  "determine_order lut proj order =
     (if order = AUTO then
        (if array_size lut < 2 then Inr INCREASING
         else case element_at lut 0 of
                Inl e \<Rightarrow> Inl e
              | Inr e0 \<Rightarrow>
                  (case element_at lut 1 of
                     Inl e \<Rightarrow> Inl e
                   | Inr e1 \<Rightarrow> Inr (if proj e0 \<le> proj e1 then INCREASING else DECREASING)))
      else Inr order)"

definition binarySearchLut ::
  "'e list \<Rightarrow> 'k::linorder \<Rightarrow> ('e \<Rightarrow> 'k) \<Rightarrow> LutOrder \<Rightarrow> (error + LutBracket) option" where
  "binarySearchLut lut target proj order =
     (case determine_order lut proj order of
        Inl e \<Rightarrow> Some (Inl e)
      | Inr order' \<Rightarrow>
          search_from lut target proj order' (new_LutBracket\<lparr> outOfRange := True \<rparr>)
            0 (array_size lut - 1))"

declare search_from.simps [code]

section \<open>lut_utils.h: linear interpolation\<close>

text \<open>
  The calibration table \<open>NTC_LUT\<close> and its size \<open>NTC_LUT_SIZE\<close> are declared in
  \<open>data/thermistor_lut.h\<close>; the table is a parameter of every function that reads it. Its
  entries are \<open>ThermistorEntry\<close> structures.
\<close>

record ThermistorEntry =
  resistance_x10 :: uint32_t
  temperature_x10 :: int16_t

definition NTC_LUT_SIZE :: "ThermistorEntry list \<Rightarrow> size_t" where
  "NTC_LUT_SIZE NTC_LUT = array_size NTC_LUT"

text \<open>\<open>Sensors::LUT_TEMPERATURE_MIN_C\<close> is an \<open>int8_t\<close>, \<open>Sensors::LUT_TEMPERATURE_MAX_C\<close> a \<open>uint8_t\<close>.\<close>

definition LUT_TEMPERATURE_MIN_C :: "8 word" where
  "LUT_TEMPERATURE_MIN_C = - 40"

definition LUT_TEMPERATURE_MAX_C :: uint8_t where
  "LUT_TEMPERATURE_MAX_C = 40"

text \<open>\<open>math::clamp\<close> at \<open>int64_t\<close>: the comparisons are signed.\<close>

definition clamp :: "int64_t \<Rightarrow> int64_t \<Rightarrow> int64_t \<Rightarrow> int64_t" where
  "clamp v lo hi = (if v <s lo then lo else if hi <s v then hi else v)"

text \<open>
  Division of two \<open>int64_t\<close> values: C++ truncates the quotient towards zero
  (\<open>sdiv\<close> on \<open>int\<close>).
\<close>

definition int64_div :: "int64_t \<Rightarrow> int64_t \<Rightarrow> int64_t" where
  "int64_div a b = word_of_int (sint a sdiv sint b)"

text \<open>
  \<open>applyLinearInterpolation\<close> at \<open>Res = uint32_t\<close>, \<open>Temp = int16_t\<close>, its instance in
  \<open>convertToTemperature_x10\<close>. The deltas are computed in the operands' own types, so the
  resistance deltas wrap as unsigned 32-bit values and the temperature delta is a 16-bit value;
  only then are they widened to \<open>int64_t\<close> (the resistances zero-extended, the temperatures
  sign-extended). \<open>interpolated_x10\<close> is the local \<open>t_interpolated_x10\<close> before the clamp.
  The divisor is not zero, since the function returns early when the two keys are equal.
\<close>

definition interpolated_x10 ::
  "uint32_t \<Rightarrow> uint32_t \<Rightarrow> uint32_t \<Rightarrow> int16_t \<Rightarrow> int16_t \<Rightarrow> int64_t" where
  "interpolated_x10 r_measured_x10 r_cold_x10 r_hot_x10 t_cold_x10 t_hot_x10 =
     (let delta_r = r_cold_x10 - r_hot_x10;
          delta_r_measured = r_cold_x10 - r_measured_x10;
          delta_t = t_hot_x10 - t_cold_x10
      in scast t_cold_x10 + int64_div (scast delta_t * ucast delta_r_measured) (ucast delta_r))"

definition applyLinearInterpolation ::
  "ThermistorEntry list \<Rightarrow> uint32_t \<Rightarrow> uint32_t \<Rightarrow> uint32_t \<Rightarrow> int16_t \<Rightarrow> int16_t
     \<Rightarrow> error + int16_t" where
  "applyLinearInterpolation NTC_LUT r_measured_x10 r_cold_x10 r_hot_x10 t_cold_x10 t_hot_x10 =
     (if r_cold_x10 = r_hot_x10 then Inr t_cold_x10
      else
        (let t_interpolated_x10 =
               interpolated_x10 r_measured_x10 r_cold_x10 r_hot_x10 t_cold_x10 t_hot_x10
         in if t_interpolated_x10 <s scast LUT_TEMPERATURE_MIN_C * 10
               \<or> ucast LUT_TEMPERATURE_MAX_C * 10 <s t_interpolated_x10
            then
              (case element_at NTC_LUT (NTC_LUT_SIZE NTC_LUT - 1) of
                 Inl e \<Rightarrow> Inl e
               | Inr last_entry \<Rightarrow>
                   (case element_at NTC_LUT 0 of
                      Inl e \<Rightarrow> Inl e
                    | Inr first_entry \<Rightarrow>
                        Inr (ucast (clamp t_interpolated_x10
                                      (scast (temperature_x10 last_entry))
                                      (scast (temperature_x10 first_entry))))))
            else Inr (ucast t_interpolated_x10)))"

section \<open>LutTemperatureConverter\<close>

definition SENTINEL :: int16_t where
  "SENTINEL = - 32768"

definition convertToTemperature_x10 ::
  "ThermistorEntry list \<Rightarrow> uint32_t \<Rightarrow> (error + int16_t) option" where
  "convertToTemperature_x10 NTC_LUT r_x10 =
     (if r_x10 = 0 then Some (Inr SENTINEL)
      else
        (case binarySearchLut NTC_LUT r_x10 resistance_x10 DECREASING of
           None \<Rightarrow> None
         | Some (Inl e) \<Rightarrow> Some (Inl e)
         | Some (Inr bracket) \<Rightarrow>
             Some
              (if outOfRange bracket then
                 (if clamped bracket then
                    (case element_at NTC_LUT 0 of
                       Inl e \<Rightarrow> Inl e
                     | Inr first_entry \<Rightarrow>
                         if r_x10 > resistance_x10 first_entry
                         then Inr (temperature_x10 first_entry)
                         else (case element_at NTC_LUT (NTC_LUT_SIZE NTC_LUT - 1) of
                                 Inl e \<Rightarrow> Inl e
                               | Inr last_entry \<Rightarrow> Inr (temperature_x10 last_entry)))
                  else Inr SENTINEL)
               else if foundExact bracket then
                 (case element_at NTC_LUT (exactIdx bracket) of
                    Inl e \<Rightarrow> Inl e
                  | Inr entry \<Rightarrow> Inr (temperature_x10 entry))
               else
                 (case element_at NTC_LUT (lowerIdx bracket) of
                    Inl e \<Rightarrow> Inl e
                  | Inr cold \<Rightarrow>
                      (case element_at NTC_LUT (upperIdx bracket) of
                         Inl e \<Rightarrow> Inl e
                       | Inr hot \<Rightarrow>
                           applyLinearInterpolation NTC_LUT r_x10
                             (resistance_x10 cold) (resistance_x10 hot)
                             (temperature_x10 cold) (temperature_x10 hot))))))"

section \<open>TemperatureSensor\<close>

text \<open>
  The pipeline holds pointers to its stages; a null pointer is \<open>None\<close>. A stage is given by
  what its virtual method computes: the sampler acts on the hardware state \<open>'h\<close>, the filter on
  its own state \<open>'f\<close>, the two converters are functions of their argument.
\<close>

datatype TemperatureUnit = Celsius | Fahrenheit | Kelvin

record ('h, 'f) TemperatureSensor =
  sampler :: "('h \<Rightarrow> uint16_t \<times> 'h) option"
  resistanceConverter :: "(uint16_t \<Rightarrow> uint32_t) option"
  temperatureConverter :: "(uint32_t \<Rightarrow> int16_t) option"
  sensor_filter :: "(int16_t \<Rightarrow> 'f \<Rightarrow> int16_t \<times> 'f) option"
  sensor_unit :: TemperatureUnit

definition new_TemperatureSensor :: "('h, 'f) TemperatureSensor" where
  "new_TemperatureSensor =
     \<lparr> sampler = None, resistanceConverter = None, temperatureConverter = None,
       sensor_filter = None, sensor_unit = Celsius \<rparr>"

definition addSampler ::
  "('h \<Rightarrow> uint16_t \<times> 'h) option \<Rightarrow> ('h, 'f) TemperatureSensor \<Rightarrow> ('h, 'f) TemperatureSensor" where
  "addSampler p s = s\<lparr> sampler := p \<rparr>"

definition addResistanceConverter ::
  "(uint16_t \<Rightarrow> uint32_t) option \<Rightarrow> ('h, 'f) TemperatureSensor \<Rightarrow> ('h, 'f) TemperatureSensor" where
  "addResistanceConverter p s = s\<lparr> resistanceConverter := p \<rparr>"

definition addTemperatureConverter ::
  "(uint32_t \<Rightarrow> int16_t) option \<Rightarrow> ('h, 'f) TemperatureSensor \<Rightarrow> ('h, 'f) TemperatureSensor" where
  "addTemperatureConverter p s = s\<lparr> temperatureConverter := p \<rparr>"

definition addFilter ::
  "(int16_t \<Rightarrow> 'f \<Rightarrow> int16_t \<times> 'f) option \<Rightarrow> ('h, 'f) TemperatureSensor \<Rightarrow> ('h, 'f) TemperatureSensor" where
  "addFilter p s = s\<lparr> sensor_filter := p \<rparr>"

text \<open>
  \<open>readTemperature_x10()\<close>. The state is the pair of the hardware state, changed by the
  sampler, and the filter's state, changed by \<open>filter_->apply\<close>.
\<close>

definition readTemperature_x10 ::
  "('h, 'f) TemperatureSensor \<Rightarrow> 'h \<times> 'f \<Rightarrow> int16_t \<times> 'h \<times> 'f" where
  "readTemperature_x10 s w =
     (case w of (h, f) \<Rightarrow>
       (case sampler s of
          None \<Rightarrow> (SENTINEL, h, f)
        | Some acquire \<Rightarrow>
       (case resistanceConverter s of
          None \<Rightarrow> (SENTINEL, h, f)
        | Some toResistance \<Rightarrow>
       (case temperatureConverter s of
          None \<Rightarrow> (SENTINEL, h, f)
        | Some toTemperature \<Rightarrow>
            (case acquire h of (adc_raw, h') \<Rightarrow>
              (let resistance_x10 = toResistance adc_raw in
               if resistance_x10 = 0 then (SENTINEL, h', f)
               else
                 (let temperature_x10 = toTemperature resistance_x10 in
                  if temperature_x10 = SENTINEL then (SENTINEL, h', f)
                  else
                    (case sensor_filter s of
                       Some apply_filter \<Rightarrow>
                         (case apply_filter temperature_x10 f of (filtered, f') \<Rightarrow> (filtered, h', f'))
                     | None \<Rightarrow> (temperature_x10, h', f)))))))))"

text \<open>The pipeline is Ready when its three required stages are attached.\<close>

definition Ready :: "('h, 'f) TemperatureSensor \<Rightarrow> bool" where
  "Ready s = (sampler s \<noteq> None \<and> resistanceConverter s \<noteq> None \<and> temperatureConverter s \<noteq> None)"

text \<open>
  A pipeline for the examples: the hardware state counts the samples taken, the sampler returns
  the given raw value, the resistance is 0 for a raw 0 and 5000.0 \<Omega> otherwise, the temperature
  is 25.0 \<degree>C for 5000.0 \<Omega> and the sentinel otherwise.
\<close>

definition example_sensor ::
  "uint16_t \<Rightarrow> (int16_t \<Rightarrow> int16_t \<Rightarrow> int16_t \<times> int16_t) \<Rightarrow> (nat, int16_t) TemperatureSensor" where
  "example_sensor raw apply =
     addFilter (Some apply)
       (addTemperatureConverter (Some (\<lambda>r. if r = 50000 then 250 else SENTINEL))
         (addResistanceConverter (Some (\<lambda>adc_raw. if adc_raw = 0 then 0 else 50000))
           (addSampler (Some (\<lambda>n. (raw, Suc n))) new_TemperatureSensor)))"

section \<open>AdcSampler\<close>

text \<open>
  The hardware the sampler talks to: \<open>analogRead\<close> returns the next value of the raw source
  (an \<open>int\<close>, 16 bits on the AVR) and \<open>delayMicroseconds\<close> lets time pass. The state counts
  the acquisitions made and the microseconds waited.
\<close>

record hardware =
  reads :: nat
  elapsed_us :: nat

definition analogRead :: "(nat \<Rightarrow> 16 word) \<Rightarrow> hardware \<Rightarrow> 16 word \<times> hardware" where
  "analogRead source hw = (source (reads hw), hw\<lparr> reads := Suc (reads hw) \<rparr>)"

definition delayMicroseconds :: "uint8_t \<Rightarrow> hardware \<Rightarrow> hardware" where
  "delayMicroseconds us hw = hw\<lparr> elapsed_us := elapsed_us hw + unat us \<rparr>"

text \<open>
  Modelled from the spec: \<open>avr_algorithms::repeat\<close> (\<open>utils/avr_algorithms.h\<close>, not among the
  sources) runs the given step the given number of times, one after the other: "discard
  \<open>samplesToDiscard\<close> raw acquisitions", "accumulate \<open>samplesToAverage\<close> further raw
  acquisitions".
\<close>

fun repeat :: "nat \<Rightarrow> ('s \<Rightarrow> 's) \<Rightarrow> 's \<Rightarrow> 's" where
  "repeat 0 f s = s"
| "repeat (Suc n) f s = repeat n f (f s)"

record AdcSampler =
  pin :: uint8_t
  samples_per_read :: uint8_t
  discard_N_first :: uint8_t
  settleUs :: uint8_t
  adc_initialize :: bool

definition new_AdcSampler :: "uint8_t \<Rightarrow> uint8_t \<Rightarrow> uint8_t \<Rightarrow> uint8_t \<Rightarrow> AdcSampler" where
  "new_AdcSampler adc_pin samples_to_average samples_to_discard settle_us =
     \<lparr> pin = adc_pin,
       samples_per_read = (if samples_to_average > 0 then samples_to_average else 1),
       discard_N_first = samples_to_discard,
       settleUs = (if settle_us > 0 then settle_us else 10),
       adc_initialize = False \<rparr>"

text \<open>
  The two loop bodies of \<open>sample()\<close>; both end with
  \<open>if (settleUs_ > 0) delayMicroseconds(settleUs_)\<close>.
\<close>

definition settle :: "AdcSampler \<Rightarrow> hardware \<Rightarrow> hardware" where
  "settle smp hw = (if settleUs smp > 0 then delayMicroseconds (settleUs smp) hw else hw)"

definition discard_step :: "(nat \<Rightarrow> 16 word) \<Rightarrow> AdcSampler \<Rightarrow> hardware \<Rightarrow> hardware" where
  "discard_step source smp hw = (case analogRead source hw of (v, hw') \<Rightarrow> settle smp hw')"

definition accumulate_step ::
  "(nat \<Rightarrow> 16 word) \<Rightarrow> AdcSampler \<Rightarrow> uint32_t \<times> hardware \<Rightarrow> uint32_t \<times> hardware" where
  "accumulate_step source smp st =
     (case st of (accumulated, hw) \<Rightarrow>
        (case analogRead source hw of (v, hw') \<Rightarrow> (accumulated + scast v, settle smp hw')))"

text \<open>
  \<open>sample()\<close>: \<open>accumulated\<close> is a \<open>uint32_t\<close>, every reading is converted to it from
  \<open>int\<close>; the average is narrowed to \<open>uint16_t\<close>. \<open>samples_per_read_\<close> is a constant
  member that the constructor never leaves at 0.
\<close>

definition sample :: "(nat \<Rightarrow> 16 word) \<Rightarrow> AdcSampler \<Rightarrow> hardware \<Rightarrow> uint16_t \<times> hardware" where
  "sample source smp hw =
     (let hw1 = repeat (unat (discard_N_first smp)) (discard_step source smp) hw in
      case repeat (unat (samples_per_read smp)) (accumulate_step source smp) (0, hw1) of
        (accumulated, hw2) \<Rightarrow>
          (let avg = (if samples_per_read smp = 1 then ucast accumulated
                      else ucast ((accumulated + ucast (drop_bit 1 (samples_per_read smp)))
                                    div ucast (samples_per_read smp))) :: uint16_t
           in (if avg > MAX_VALUE then MAX_VALUE else avg, hw2)))"

text \<open>
  The rounded mean of the specification, over natural numbers: half the count is added before
  the division unless the count is 1.
\<close>

definition rounded_mean :: "nat \<Rightarrow> nat \<Rightarrow> nat" where
  "rounded_mean sum_of_samples count =
     (if count = 1 then sum_of_samples else (sum_of_samples + count div 2) div count)"

text \<open>The raw source \<open>[10,10,10,10, 20,20,20,20]\<close> of the specification's example.\<close>

definition example_source :: "nat \<Rightarrow> 16 word" where
  "example_source i = [10, 10, 10, 10, 20, 20, 20, 20] ! i"

section \<open>EmaFilter\<close>

text \<open>
  The smoothing factor is a \<open>float\<close>. Only its comparisons with 0 and 1 matter here, so a
  \<open>float\<close> is modelled by its value: a real number (the finite floats are among them), one of
  the two infinities, or a NaN.
\<close>

datatype float = Finite real | PlusInfinity | MinusInfinity | NaN

text \<open>The comparison \<open><\<close> of two \<open>float\<close> values; every comparison with a NaN is false.\<close>

fun float_less :: "float \<Rightarrow> float \<Rightarrow> bool" where
  "float_less (Finite a) (Finite b) = (a < b)"
| "float_less (Finite a) PlusInfinity = True"
| "float_less MinusInfinity (Finite b) = True"
| "float_less MinusInfinity PlusInfinity = True"
| "float_less _ _ = False"

record 'T EmaFilter =
  alpha :: float
  prev_value :: 'T
  ema_initialize :: bool

definition new_EmaFilter :: "float \<Rightarrow> 'T \<Rightarrow> 'T EmaFilter" where
  "new_EmaFilter a initial_value =
     \<lparr> alpha = a, prev_value = initial_value, ema_initialize = False \<rparr>"

text \<open>
  \<open>begin()\<close>: the literals \<open>0\<close>, \<open>1\<close> and \<open>0.5\<close> are exactly representable, and
  \<open>alpha_ > 1\<close> is \<open>1 < alpha_\<close>.
\<close>

definition begin_EmaFilter :: "'T EmaFilter \<Rightarrow> 'T EmaFilter" where
  "begin_EmaFilter f =
     (if float_less (alpha f) (Finite 0) \<or> float_less (Finite 1) (alpha f)
      then f\<lparr> alpha := Finite 0.5 \<rparr>
      else f)"

text \<open>The closed interval \<open>[0, 1]\<close> and the half-open interval \<open>(0, 1]\<close> of the specification.\<close>

fun in_closed_unit_interval :: "float \<Rightarrow> bool" where
  "in_closed_unit_interval (Finite x) = (0 \<le> x \<and> x \<le> 1)"
| "in_closed_unit_interval _ = False"

fun in_half_open_unit_interval :: "float \<Rightarrow> bool" where
  "in_half_open_unit_interval (Finite x) = (0 < x \<and> x \<le> 1)"
| "in_half_open_unit_interval _ = False"

section \<open>Calibration tables\<close>

text \<open>
  A calibration table is strictly monotonic in its keys. The order hint given to the search
  matches a table when it names the table's order, or is \<open>AUTO\<close>.
\<close>

definition strictly_increasing :: "('e \<Rightarrow> 'k::linorder) \<Rightarrow> 'e list \<Rightarrow> bool" where
  "strictly_increasing proj lut = sorted_wrt (\<lambda>a b. proj a < proj b) lut"

definition strictly_decreasing :: "('e \<Rightarrow> 'k::linorder) \<Rightarrow> 'e list \<Rightarrow> bool" where
  "strictly_decreasing proj lut = sorted_wrt (\<lambda>a b. proj a > proj b) lut"

definition order_matches :: "('e \<Rightarrow> 'k::linorder) \<Rightarrow> 'e list \<Rightarrow> LutOrder \<Rightarrow> bool" where
  "order_matches proj lut order =
     (case order of
        INCREASING \<Rightarrow> strictly_increasing proj lut
      | DECREASING \<Rightarrow> strictly_decreasing proj lut
      | AUTO \<Rightarrow> strictly_increasing proj lut \<or> strictly_decreasing proj lut)"

section \<open>The interpolation formula of the specification\<close>

text \<open>
  The specification's formula, over unbounded integers, with the quotient truncated towards
  zero: \<open>value = lowValue + (highValue - lowValue) * (lowKey - target) / (lowKey - highKey)\<close>.
\<close>

definition interpolate_spec :: "int \<Rightarrow> int \<Rightarrow> int \<Rightarrow> int \<Rightarrow> int \<Rightarrow> int" where
  "interpolate_spec target lowKey highKey lowValue highValue =
     lowValue + ((highValue - lowValue) * (lowKey - target)) sdiv (lowKey - highKey)"

text \<open>
  A calibration table in the documented layout, sorted by decreasing resistance, coldest entry
  first: 100000.0 \<Omega> at -40.0 \<degree>C, 5000.0 \<Omega> at 25.0 \<degree>C, 1000.0 \<Omega> at 40.0 \<degree>C.
\<close>

definition example_table :: "ThermistorEntry list" where
  "example_table = [\<lparr> resistance_x10 = 1000000, temperature_x10 = - 400 \<rparr>,
             \<lparr> resistance_x10 = 50000, temperature_x10 = 250 \<rparr>,
             \<lparr> resistance_x10 = 10000, temperature_x10 = 400 \<rparr>]"

section \<open>Properties\<close>

lemma MAX_VALUE_eq: "MAX_VALUE = 1023"
  by (simp add: MAX_VALUE_def)

text \<open>
  C3. A raw input of 0 gives resistance 0. A raw input of exactly the maximum, 1023, passes the
  guard \<open>adc_raw > MAX_VALUE\<close> and reaches the division with divisor \<open>1023 - 1023 = 0\<close>: for
  every divider resistance the conversion divides by zero instead of returning 0.
\<close>

theorem convertToResistance_x10_max_raw_divides_by_zero:
  "convertToResistance_x10 c 0 = Inr 0 \<and> convertToResistance_x10 c 1023 = Inl DivisionByZero"
  by (simp add: convertToResistance_x10_def MAX_VALUE_eq)

subsection \<open>The binary search finds every key of the table\<close>

lemma mid_unat: "l \<le> r \<Longrightarrow> unat (l + (r - l) div 2 :: size_t) = unat l + (unat r - unat l) div 2"
  by unat_arith

lemma dec_unat: "m \<noteq> 0 \<Longrightarrow> unat (m - 1 :: size_t) = unat m - 1"
  by unat_arith

lemma inc_unat: "unat m < 65535 \<Longrightarrow> unat (m + 1 :: size_t) = unat m + 1"
  by (simp add: unat_word_ariths)

lemma search_from_finds:
  assumes len: "length lut \<le> 65535"
    and i: "i < length lut"
    and key: "\<forall>j < length lut. j \<noteq> i \<longrightarrow> proj (lut ! j) \<noteq> proj (lut ! i) \<and>
                ((if order = INCREASING then proj (lut ! i) < proj (lut ! j)
                  else \<not> proj (lut ! i) < proj (lut ! j)) \<longleftrightarrow> i < j)"
  shows "unat l \<le> i \<Longrightarrow> i \<le> unat r \<Longrightarrow> unat r < length lut \<Longrightarrow>
         search_from lut (proj (lut ! i)) proj order result l r
           = Some (Inr (result\<lparr> exactIdx := of_nat i, foundExact := True, lowerIdx := of_nat i,
                                upperIdx := of_nat i, outOfRange := False, clamped := False \<rparr>))"
proof (induction "unat r - unat l" arbitrary: l r rule: less_induct)
  case less
  let ?mid = "l + (r - l) div 2"
  let ?res = "Some (Inr (result\<lparr> exactIdx := of_nat i, foundExact := True, lowerIdx := of_nat i,
                                upperIdx := of_nat i, outOfRange := False, clamped := False \<rparr>))"
  have lr: "l \<le> r" using less.prems by (simp add: word_le_nat_alt)
  have um: "unat ?mid = unat l + (unat r - unat l) div 2" using lr by (rule mid_unat)
  have mlt: "unat ?mid < length lut" using um less.prems by linarith
  have ea: "element_at lut ?mid = Inr (lut ! unat ?mid)" using mlt by (simp add: element_at_def)
  show ?case
  proof (cases "unat ?mid = i")
    case True
    then have "?mid = of_nat i" by (metis of_nat_unat ucast_id)
    then show ?thesis using True lr ea
      by (subst search_from.simps) (simp add: Let_def)
  next
    case False
    with key mlt have ne: "proj (lut ! unat ?mid) \<noteq> proj (lut ! i)"
      and gl: "(if order = INCREASING then proj (lut ! i) < proj (lut ! unat ?mid)
                  else \<not> proj (lut ! i) < proj (lut ! unat ?mid)) \<longleftrightarrow> i < unat ?mid"
      by auto
    show ?thesis
    proof (cases "i < unat ?mid")
      case True
      then have m0: "?mid \<noteq> 0" by (metis not_less_zero unat_0)
      have ud: "unat (?mid - 1) = unat ?mid - 1" using m0 by (rule dec_unat)
      have IH: "search_from lut (proj (lut ! i)) proj order result l (?mid - 1) = ?res"
        using less.prems True um ud by (intro less.hyps) linarith+
      show ?thesis using lr ea ne gl True IH
        by (subst search_from.simps) (simp add: Let_def)
    next
      case ge: False
      with False have gt: "unat ?mid < i" by linarith
      have ui: "unat (?mid + 1) = unat ?mid + 1" using gt i len by (intro inc_unat) linarith
      have IH: "search_from lut (proj (lut ! i)) proj order result (?mid + 1) r = ?res"
        using less.prems gt um ui by (intro less.hyps) linarith+
      show ?thesis using lr ea ne gl ge IH
        by (subst search_from.simps) (simp add: Let_def)
    qed
  qed
qed

lemma increasing_nth:
  "strictly_increasing proj lut \<Longrightarrow> i < length lut \<Longrightarrow> j < length lut \<Longrightarrow>
     (proj (lut ! i) < proj (lut ! j)) = (i < j)"
  unfolding strictly_increasing_def sorted_wrt_iff_nth_less
  by (metis linorder_neqE_nat not_less_iff_gr_or_eq)

lemma decreasing_nth:
  "strictly_decreasing proj lut \<Longrightarrow> i < length lut \<Longrightarrow> j < length lut \<Longrightarrow>
     (proj (lut ! j) < proj (lut ! i)) = (i < j)"
  unfolding strictly_decreasing_def sorted_wrt_iff_nth_less
  by (metis linorder_neqE_nat not_less_iff_gr_or_eq)

lemma increasing_distinct:
  assumes "strictly_increasing proj lut" "i < length lut" "j < length lut" "j \<noteq> i"
  shows "proj (lut ! j) \<noteq> proj (lut ! i) \<and> (proj (lut ! i) < proj (lut ! j)) = (i < j)"
proof (cases "i < j")
  case True
  then have "proj (lut ! i) < proj (lut ! j)" using increasing_nth[OF assms(1-3)] by simp
  then show ?thesis using True by auto
next
  case False
  then have "j < i" using assms(4) by linarith
  then have "proj (lut ! j) < proj (lut ! i)" using increasing_nth[OF assms(1,3,2)] by simp
  then show ?thesis using False by auto
qed

lemma decreasing_distinct:
  assumes "strictly_decreasing proj lut" "i < length lut" "j < length lut" "j \<noteq> i"
  shows "proj (lut ! j) \<noteq> proj (lut ! i) \<and> (\<not> proj (lut ! i) < proj (lut ! j)) = (i < j)"
proof (cases "i < j")
  case True
  then have "proj (lut ! j) < proj (lut ! i)" using decreasing_nth[OF assms(1-3)] by simp
  then show ?thesis using True by auto
next
  case False
  then have "j < i" using assms(4) by linarith
  then have "proj (lut ! i) < proj (lut ! j)" using decreasing_nth[OF assms(1,3,2)] by simp
  then show ?thesis using False by auto
qed

lemma array_size_unat: "length lut \<le> 65535 \<Longrightarrow> unat (array_size lut) = length lut"
  by (simp add: array_size_def unat_of_nat)

lemma last_index_unat:
  "0 < length lut \<Longrightarrow> length lut \<le> 65535 \<Longrightarrow> unat (array_size lut - 1) = length lut - 1"
  by (metis array_size_unat dec_unat less_numeral_extra(3) unat_0)

lemma determine_order_matches:
  assumes "order_matches proj lut order" "length lut \<le> 65535"
  shows "\<exists>order'. determine_order lut proj order = Inr order' \<and> order' \<noteq> AUTO \<and>
           (order' = INCREASING \<longrightarrow> strictly_increasing proj lut) \<and>
           (order' = DECREASING \<longrightarrow> strictly_decreasing proj lut)"
proof (cases order)
  case AUTO
  show ?thesis
  proof (cases "length lut < 2")
    case True
    then have "array_size lut < 2"
      using assms(2) by (simp add: word_less_nat_alt array_size_unat)
    moreover have "strictly_increasing proj lut"
      using True by (cases lut; cases "tl lut") (auto simp: strictly_increasing_def)
    ultimately show ?thesis using AUTO by (simp add: determine_order_def)
  next
    case False
    then have n2: "\<not> array_size lut < 2"
      using assms(2) by (simp add: word_less_nat_alt array_size_unat)
    have l2: "0 < length lut" "1 < length lut"
      using False by linarith+
    have a0: "element_at lut 0 = Inr (lut ! 0)" and a1: "element_at lut 1 = Inr (lut ! 1)"
      using l2 by (simp_all add: element_at_def)
    have "strictly_increasing proj lut \<or> strictly_decreasing proj lut"
      using assms(1) AUTO by (simp add: order_matches_def)
    then show ?thesis
    proof
      assume inc: "strictly_increasing proj lut"
      then have "proj (lut ! 0) < proj (lut ! 1)"
        using increasing_nth[OF inc l2] by simp
      then show ?thesis using AUTO n2 a0 a1 inc by (auto simp: determine_order_def)
    next
      assume dec: "strictly_decreasing proj lut"
      then have "proj (lut ! 1) < proj (lut ! 0)"
        using decreasing_nth[OF dec l2] by simp
      then show ?thesis using AUTO n2 a0 a1 dec by (auto simp: determine_order_def)
    qed
  qed
qed (use assms in \<open>simp_all add: determine_order_def order_matches_def\<close>)

lemma binarySearchLut_finds:
  assumes "order_matches proj lut order" "i < length lut" "length lut \<le> 65535"
  shows "binarySearchLut lut (proj (lut ! i)) proj order
           = Some (Inr \<lparr> lowerIdx = of_nat i, upperIdx = of_nat i, exactIdx = of_nat i,
                          foundExact = True, outOfRange = False, clamped = False \<rparr>)"
proof -
  obtain order' where d: "determine_order lut proj order = Inr order'" and na: "order' \<noteq> AUTO"
    and inc: "order' = INCREASING \<Longrightarrow> strictly_increasing proj lut"
    and dec: "order' = DECREASING \<Longrightarrow> strictly_decreasing proj lut"
    using determine_order_matches[OF assms(1,3)] by blast
  have key: "\<forall>j < length lut. j \<noteq> i \<longrightarrow> proj (lut ! j) \<noteq> proj (lut ! i) \<and>
                ((if order' = INCREASING then proj (lut ! i) < proj (lut ! j)
                  else \<not> proj (lut ! i) < proj (lut ! j)) \<longleftrightarrow> i < j)"
  proof (cases order')
    case INCREASING
    then show ?thesis
      using increasing_distinct[OF inc[OF INCREASING] assms(2)] by simp
  next
    case DECREASING
    then show ?thesis
      using decreasing_distinct[OF dec[OF DECREASING] assms(2)] by simp
  qed (use na in simp)
  have "search_from lut (proj (lut ! i)) proj order' (new_LutBracket\<lparr> outOfRange := True \<rparr>)
          0 (array_size lut - 1)
        = Some (Inr ((new_LutBracket\<lparr> outOfRange := True \<rparr>)\<lparr> exactIdx := of_nat i, foundExact := True, lowerIdx := of_nat i,
                                upperIdx := of_nat i, outOfRange := False, clamped := False \<rparr>))"
  proof (intro search_from_finds[OF assms(3,2) key])
    have "unat (array_size lut - 1) = length lut - 1"
      using assms(2,3) by (intro last_index_unat) linarith+
    then show "i \<le> unat (array_size lut - 1)" "unat (array_size lut - 1) < length lut"
      using assms(2) by linarith+
  qed simp
  then show ?thesis by (simp add: binarySearchLut_def d new_LutBracket_def)
qed

subsection \<open>Linear interpolation\<close>

lemma sint64_of_int:
  "- (2 ^ 63) \<le> k \<Longrightarrow> k < 2 ^ 63 \<Longrightarrow> sint (word_of_int k :: int64_t) = k"
  by (simp add: sint_sbintrunc' signed_take_bit_int_eq_self)

lemma abs_div_nonneg: "0 \<le> \<bar>k\<bar> div \<bar>l\<bar>" for k l :: int
  by (simp add: div_int_pos_iff)

lemma abs_div_le: "\<bar>k\<bar> div \<bar>l\<bar> \<le> \<bar>k\<bar>" for k l :: int
proof (cases "l = 0")
  case True
  then show ?thesis by simp
next
  case False
  then have "\<bar>k\<bar> div \<bar>l\<bar> \<le> \<bar>k\<bar> div 1"
    by (intro zdiv_mono2) simp_all
  then show ?thesis by simp
qed

lemma abs_sdiv_le: "\<bar>k sdiv l\<bar> \<le> \<bar>k\<bar>" for k l :: int
proof -
  have "\<bar>k sdiv l\<bar> = \<bar>sgn k\<bar> * \<bar>sgn l\<bar> * (\<bar>k\<bar> div \<bar>l\<bar>)"
    using abs_div_nonneg[of k l] by (simp add: signed_divide_int_def abs_mult)
  also have "\<dots> \<le> \<bar>k\<bar> div \<bar>l\<bar>"
    using abs_div_nonneg[of k l] by (cases "k = 0"; cases "l = 0") (simp_all add: abs_sgn_eq)
  also have "\<dots> \<le> \<bar>k\<bar>"
    by (rule abs_div_le)
  finally show ?thesis .
qed

lemma delta_product_bound:
  fixes dt :: "16 word" and drm :: "32 word"
  shows "\<bar>sint dt * uint drm\<bar> \<le> 2 ^ 47"
proof -
  have a: "\<bar>sint dt\<bar> \<le> 2 ^ 15"
    using sint_ge[of dt] sint_lt[of dt] by simp
  have b: "\<bar>uint drm\<bar> \<le> 2 ^ 32"
    using uint_lt2p[of drm] by simp
  have "\<bar>sint dt\<bar> * \<bar>uint drm\<bar> \<le> 2 ^ 15 * 2 ^ 32"
    using a b by (intro mult_mono) simp_all
  then show ?thesis by (simp add: abs_mult)
qed

lemma interpolated_x10_sint:
  "sint (interpolated_x10 r_measured r_cold r_hot t_cold t_hot)
     = sint t_cold + (sint (t_hot - t_cold) * uint (r_cold - r_measured)) sdiv uint (r_cold - r_hot)"
proof -
  define p where "p = sint (t_hot - t_cold) * uint (r_cold - r_measured)"
  define d where "d = uint (r_cold - r_hot)"
  have pb: "\<bar>p\<bar> \<le> 2 ^ 47" unfolding p_def by (rule delta_product_bound)
  have prod: "(scast (t_hot - t_cold) :: int64_t) * ucast (r_cold - r_measured) = word_of_int p"
    by (simp only: p_def scast_eq ucast_eq wi_hom_mult)
  have sp: "sint (word_of_int p :: int64_t) = p"
    using pb by (intro sint64_of_int) simp_all
  have sd: "sint (ucast (r_cold - r_hot) :: int64_t) = d"
  proof -
    have "(0::int) \<le> d" by (simp add: d_def)
    then have "- (2 ^ 63) \<le> d" by (rule order_trans[rotated]) simp
    moreover have "d < 2 ^ 63"
      using uint_lt2p[of "r_cold - r_hot"] by (simp add: d_def)
    ultimately show ?thesis unfolding d_def ucast_eq by (rule sint64_of_int)
  qed
  have q: "int64_div (scast (t_hot - t_cold) * ucast (r_cold - r_measured)) (ucast (r_cold - r_hot))
             = word_of_int (p sdiv d)"
    by (simp only: int64_div_def prod sp sd)
  have qb: "\<bar>p sdiv d\<bar> \<le> 2 ^ 47"
    using abs_sdiv_le[of p d] pb by simp
  have tb: "- (2 ^ 15) \<le> sint t_cold" "sint t_cold < 2 ^ 15"
    using sint_ge[of t_cold] sint_lt[of t_cold] by simp_all
  have "interpolated_x10 r_measured r_cold r_hot t_cold t_hot
          = scast t_cold + word_of_int (p sdiv d)"
    by (simp only: interpolated_x10_def Let_def q)
  then have "interpolated_x10 r_measured r_cold r_hot t_cold t_hot
          = word_of_int (sint t_cold + p sdiv d)"
    by (simp only: scast_eq wi_hom_add)
  moreover have "sint (word_of_int (sint t_cold + p sdiv d) :: int64_t) = sint t_cold + p sdiv d"
    using qb tb by (intro sint64_of_int) simp_all
  ultimately show ?thesis by (simp only: p_def d_def)
qed

lemma sless_min: "((w :: int64_t) <s scast LUT_TEMPERATURE_MIN_C * 10) = (sint w < - 400)"
  by (simp add: word_sless_alt LUT_TEMPERATURE_MIN_C_def)

lemma sless_max: "(ucast LUT_TEMPERATURE_MAX_C * 10 <s (w :: int64_t)) = (400 < sint w)"
  by (simp add: word_sless_alt LUT_TEMPERATURE_MAX_C_def)

lemma narrow_int64: "(ucast (w :: int64_t) :: int16_t) = word_of_int (sint w)"
proof -
  have "is_down (ucast :: int64_t \<Rightarrow> int16_t)" by (simp add: is_down)
  then have "(ucast :: int64_t \<Rightarrow> int16_t) = scast" by (rule down_cast_same)
  then have "(ucast w :: int16_t) = scast w" by (rule fun_cong)
  then show ?thesis by (simp only: scast_eq)
qed

lemma applyLinearInterpolation_unclamped:
  assumes "r_cold \<noteq> r_hot"
    and "- 400 \<le> sint (interpolated_x10 r_measured r_cold r_hot t_cold t_hot)"
    and "sint (interpolated_x10 r_measured r_cold r_hot t_cold t_hot) \<le> 400"
  shows "applyLinearInterpolation NTC_LUT r_measured r_cold r_hot t_cold t_hot
           = Inr (word_of_int (sint (interpolated_x10 r_measured r_cold r_hot t_cold t_hot)))"
  using assms by (simp add: applyLinearInterpolation_def Let_def sless_min sless_max narrow_int64)

text \<open>
  C4 (as amended). The code assumes descending keys: it forms \<open>r_cold - r_hot\<close> and
  \<open>r_cold - r_measured\<close> as unsigned 32-bit differences before widening them. For
  \<open>lowKey > highKey\<close>, \<open>target \<le> lowKey\<close> and a value difference that fits the 16-bit
  temperature type, the value computed before the range clamp is exactly the specification's
  formula with truncating division; the 64-bit product, quotient and sum never overflow. When
  that value lies in the configured range \<open>[-400, 400]\<close> it is also the value returned.
\<close>

theorem interpolation_formula_descending:
  assumes "r_hot < r_cold" and "r_measured \<le> r_cold"
    and "- 32768 \<le> sint t_hot - sint t_cold" and "sint t_hot - sint t_cold \<le> 32767"
  shows "sint (interpolated_x10 r_measured r_cold r_hot t_cold t_hot)
           = interpolate_spec (uint r_measured) (uint r_cold) (uint r_hot) (sint t_cold) (sint t_hot)
         \<and> (- 400 \<le> interpolate_spec (uint r_measured) (uint r_cold) (uint r_hot) (sint t_cold) (sint t_hot)
              \<and> interpolate_spec (uint r_measured) (uint r_cold) (uint r_hot) (sint t_cold) (sint t_hot) \<le> 400
            \<longrightarrow> applyLinearInterpolation NTC_LUT r_measured r_cold r_hot t_cold t_hot
                  = Inr (word_of_int (interpolate_spec (uint r_measured) (uint r_cold) (uint r_hot)
                                        (sint t_cold) (sint t_hot))))"
proof -
  have dr: "uint (r_cold - r_hot) = uint r_cold - uint r_hot"
    using assms(1) by (simp add: uint_sub_lem[symmetric] word_less_def)
  have drm: "uint (r_cold - r_measured) = uint r_cold - uint r_measured"
    using assms(2) by (simp add: uint_sub_lem[symmetric] word_le_def)
  have dt: "sint (t_hot - t_cold) = sint t_hot - sint t_cold"
    using assms(3,4) by (simp add: sint_word_ariths signed_take_bit_int_eq_self)
  have val: "sint (interpolated_x10 r_measured r_cold r_hot t_cold t_hot)
           = interpolate_spec (uint r_measured) (uint r_cold) (uint r_hot) (sint t_cold) (sint t_hot)"
    by (simp only: interpolated_x10_sint dr drm dt interpolate_spec_def)
  have ne: "r_cold \<noteq> r_hot" using assms(1) by auto
  show ?thesis
    using applyLinearInterpolation_unclamped[OF ne, of r_measured t_cold t_hot NTC_LUT] val
    by simp
qed

theorem interpolation_formula_descending_witness:
  "(50000 :: uint32_t) < 1000000 \<and> (900000 :: uint32_t) \<le> 1000000
   \<and> sint (interpolated_x10 900000 1000000 50000 (- 400) 250) = - 332
   \<and> applyLinearInterpolation example_table 900000 1000000 50000 (- 400) 250 = Inr (- 332)"
  using interpolation_formula_descending[of 50000 1000000 900000 250 "- 400" example_table]
  by (simp add: interpolate_spec_def signed_divide_int_def)

text \<open>
  C4 as stated fails for ascending keys: with \<open>lowKey = 1000 < highKey = 2000\<close> and
  \<open>target = 1500\<close> the two unsigned differences wrap and the code returns 100, where the
  formula gives 50.
\<close>

theorem interpolation_ascending_keys_counterexample:
  "applyLinearInterpolation example_table 1500 1000 2000 0 100 = Inr 100
   \<and> interpolate_spec 1500 1000 2000 0 100 = 50"
  by (simp add: applyLinearInterpolation_def interpolated_x10_def int64_div_def Let_def
      LUT_TEMPERATURE_MIN_C_def LUT_TEMPERATURE_MAX_C_def word_sless_alt
      interpolate_spec_def signed_divide_int_def)

text \<open>
  C9 (as amended). For two distinct keys and bracket values inside the configured range
  \<open>[-400, 400]\<close> (-40.0 \<degree>C to +40.0 \<degree>C), interpolation at \<open>target = lowKey\<close> returns
  \<open>lowValue\<close> and at \<open>target = highKey\<close> returns \<open>highValue\<close>, whatever the order of the
  keys and whatever the table.
\<close>

theorem endpoint_exactness_in_range:
  assumes "r_cold \<noteq> r_hot"
    and "- 400 \<le> sint t_cold" and "sint t_cold \<le> 400"
    and "- 400 \<le> sint t_hot" and "sint t_hot \<le> 400"
  shows "applyLinearInterpolation NTC_LUT r_cold r_cold r_hot t_cold t_hot = Inr t_cold
       \<and> applyLinearInterpolation NTC_LUT r_hot r_cold r_hot t_cold t_hot = Inr t_hot"
proof -
  have lo: "sint (interpolated_x10 r_cold r_cold r_hot t_cold t_hot) = sint t_cold"
    by (simp add: interpolated_x10_sint)
  have dt: "sint (t_hot - t_cold) = sint t_hot - sint t_cold"
    using assms(2-5) by (simp add: sint_word_ariths signed_take_bit_int_eq_self)
  have d0: "uint (r_cold - r_hot) \<noteq> 0"
    using assms(1) by (simp add: uint_0_iff)
  have cancel: "(k * d) sdiv d = k" if "d \<noteq> 0" for k d :: int
  proof -
    have "sgn d * sgn d = 1" using that by (simp add: sgn_if)
    then have "sgn k * sgn d * sgn d * \<bar>k\<bar> = sgn k * \<bar>k\<bar>"
      by (simp add: mult.assoc)
    also have "\<dots> = k" by (simp add: sgn_if)
    finally have "sgn k * sgn d * sgn d * \<bar>k\<bar> = k" .
    moreover have "(k * d) sdiv d = sgn k * sgn d * sgn d * \<bar>k\<bar>"
      using that by (simp add: signed_divide_int_def abs_mult sgn_mult)
    ultimately show ?thesis by (simp only:)
  qed
  have hi: "sint (interpolated_x10 r_hot r_cold r_hot t_cold t_hot) = sint t_hot"
    by (simp add: interpolated_x10_sint dt cancel[OF d0])
  show ?thesis
    using applyLinearInterpolation_unclamped[OF assms(1), of r_cold t_cold t_hot NTC_LUT]
      applyLinearInterpolation_unclamped[OF assms(1), of r_hot t_cold t_hot NTC_LUT]
      assms(2-5)
    by (simp add: lo hi)
qed

theorem endpoint_exactness_in_range_witness:
  "applyLinearInterpolation example_table 1000000 1000000 50000 (- 400) 250 = Inr (- 400)
   \<and> applyLinearInterpolation example_table 50000 1000000 50000 (- 400) 250 = Inr 250"
  using endpoint_exactness_in_range[of 1000000 50000 "- 400" 250 example_table]
  by simp

text \<open>
  C9 as stated fails for bracket values outside the configured range: with \<open>lowValue = 500\<close>
  the result at \<open>target = lowKey\<close> is passed through the range clamp and is not 500.
\<close>

theorem endpoint_out_of_range_counterexample:
  "applyLinearInterpolation example_table 1000 1000 500 500 600 = Inr (- 400)"
  by (simp add: applyLinearInterpolation_def interpolated_x10_def int64_div_def Let_def
      LUT_TEMPERATURE_MIN_C_def LUT_TEMPERATURE_MAX_C_def word_sless_alt clamp_def
      element_at_def NTC_LUT_SIZE_def array_size_def example_table_def signed_divide_int_def)

text \<open>
  C5. The clamp is entered when the interpolated value leaves \<open>[-400, 400]\<close> and calls
  \<open>math::clamp\<close> with the last entry's temperature as the minimum and the first entry's as
  the maximum. In the documented table layout the first entry is the coldest, so the two bounds
  are swapped: an interpolated value of 408, above the table's maximum 400, comes back as the
  minimum -400, and an interpolated value of -408, below the minimum, comes back as the
  maximum 400.
\<close>

theorem clamp_returns_opposite_extreme:
  "applyLinearInterpolation example_table 100 1000 500 390 400 = Inr (- 400)
   \<and> applyLinearInterpolation example_table 100 1000 500 (- 390) (- 400) = Inr 400"
  by (simp add: applyLinearInterpolation_def interpolated_x10_def int64_div_def Let_def
      LUT_TEMPERATURE_MIN_C_def LUT_TEMPERATURE_MAX_C_def word_sless_alt clamp_def
      element_at_def NTC_LUT_SIZE_def array_size_def example_table_def signed_divide_int_def)

subsection \<open>Table keys and table edges\<close>

lemma element_at_of_nat: "j < length lut \<Longrightarrow> length lut \<le> 65535 \<Longrightarrow> element_at lut (of_nat j) = Inr (lut ! j)"
  by (simp add: element_at_def unat_of_nat)

lemma convertToTemperature_x10_exact:
  assumes "strictly_decreasing resistance_x10 NTC_LUT" "j < length NTC_LUT"
    "length NTC_LUT \<le> 65535" "resistance_x10 (NTC_LUT ! j) \<noteq> 0"
  shows "convertToTemperature_x10 NTC_LUT (resistance_x10 (NTC_LUT ! j))
           = Some (Inr (temperature_x10 (NTC_LUT ! j)))"
proof -
  have "order_matches resistance_x10 NTC_LUT DECREASING"
    using assms(1) by (simp add: order_matches_def)
  then have "binarySearchLut NTC_LUT (resistance_x10 (NTC_LUT ! j)) resistance_x10 DECREASING
           = Some (Inr \<lparr> lowerIdx = of_nat j, upperIdx = of_nat j, exactIdx = of_nat j,
                          foundExact = True, outOfRange = False, clamped = False \<rparr>)"
    using assms(2,3) by (rule binarySearchLut_finds)
  then show ?thesis
    using assms(4) element_at_of_nat[OF assms(2,3)] by (simp add: convertToTemperature_x10_def)
qed

text \<open>
  C6 (as amended). For a strictly monotonic table of at most \<open>SIZE_MAX\<close> entries, searched
  with an order hint that matches it, and a target equal to the key of entry \<open>i\<close>,
  \<open>binarySearchLut\<close> returns \<open>foundExact = true\<close>, \<open>lowerIdx = upperIdx = exactIdx = i\<close> and
  \<open>outOfRange = false\<close>. For a table sorted by strictly decreasing resistance,
  \<open>convertToTemperature_x10\<close> applied to the resistance of an entry returns that entry's
  stored temperature, provided the resistance is not zero.
\<close>

theorem exact_key_found:
  "(order_matches proj lut order \<and> i < length lut \<and> length lut \<le> 65535 \<longrightarrow>
      binarySearchLut lut (proj (lut ! i)) proj order
        = Some (Inr \<lparr> lowerIdx = of_nat i, upperIdx = of_nat i, exactIdx = of_nat i,
                       foundExact = True, outOfRange = False, clamped = False \<rparr>))
   \<and> (strictly_decreasing resistance_x10 NTC_LUT \<and> j < length NTC_LUT \<and> length NTC_LUT \<le> 65535
        \<and> resistance_x10 (NTC_LUT ! j) \<noteq> 0 \<longrightarrow>
      convertToTemperature_x10 NTC_LUT (resistance_x10 (NTC_LUT ! j))
        = Some (Inr (temperature_x10 (NTC_LUT ! j))))"
  using binarySearchLut_finds[of proj lut order i]
    convertToTemperature_x10_exact[of NTC_LUT j]
  by blast

theorem exact_key_found_witness:
  "order_matches resistance_x10 example_table AUTO
   \<and> strictly_decreasing resistance_x10 example_table
   \<and> binarySearchLut example_table 50000 resistance_x10 AUTO
        = Some (Inr \<lparr> lowerIdx = 1, upperIdx = 1, exactIdx = 1,
                       foundExact = True, outOfRange = False, clamped = False \<rparr>)
   \<and> convertToTemperature_x10 example_table 50000 = Some (Inr 250)"
proof -
  have sd: "strictly_decreasing resistance_x10 example_table"
    by (simp add: strictly_decreasing_def example_table_def)
  then have om: "order_matches resistance_x10 example_table AUTO"
    by (simp add: order_matches_def)
  show ?thesis
    using exact_key_found[of resistance_x10 example_table AUTO 1 example_table 1] sd om
    by (simp add: example_table_def)
qed

text \<open>
  C6 as stated fails for an entry whose resistance is zero: \<open>convertToTemperature_x10\<close>
  rejects the input 0 before it looks at the table and returns the sentinel -32768, not the
  entry's stored temperature.
\<close>

theorem zero_resistance_entry_counterexample:
  "strictly_decreasing resistance_x10
      [\<lparr> resistance_x10 = 1000, temperature_x10 = - 400 \<rparr>,
       \<lparr> resistance_x10 = 0, temperature_x10 = 400 \<rparr>]
   \<and> convertToTemperature_x10
      [\<lparr> resistance_x10 = 1000, temperature_x10 = - 400 \<rparr>,
       \<lparr> resistance_x10 = 0, temperature_x10 = 400 \<rparr>] 0 = Some (Inr (- 32768))"
  by (simp add: strictly_decreasing_def convertToTemperature_x10_def SENTINEL_def)

subsection \<open>The two ends of the table\<close>

text \<open>
  The search returns a bracket whenever the target is not beyond the first entry; a target
  beyond the last entry gives the clamped pair \<open>[N-2, N-1]\<close>, and \<open>convertToTemperature_x10\<close>
  then returns the last entry's temperature. A target beyond the first entry of a table of at
  most 32767 entries always ends in the read of \<open>lut[32767]\<close>.
\<close>

lemma search_from_returns:
  assumes len: "length lut \<le> 65535"
    and first: "\<forall>j < length lut. proj (lut ! j) \<noteq> target \<longrightarrow>
                 (if order = INCREASING then target < proj (lut ! j)
                  else \<not> target < proj (lut ! j)) \<longrightarrow> j \<noteq> 0"
  shows "unat r < length lut \<Longrightarrow>
         \<exists>b. search_from lut target proj order result l r = Some (Inr b)"
proof (induction "Suc (unat r) - unat l" arbitrary: l r rule: less_induct)
  case less
  show ?case
  proof (cases "l \<le> r")
    case False
    then show ?thesis by (subst search_from.simps) simp
  next
    case True
    let ?mid = "l + (r - l) div 2"
    have um: "unat ?mid = unat l + (unat r - unat l) div 2" using True by (rule mid_unat)
    have lr: "unat l \<le> unat r" using True by (simp add: word_le_nat_alt)
    have mlt: "unat ?mid < length lut" using um less.prems lr by linarith
    have ea: "element_at lut ?mid = Inr (lut ! unat ?mid)" using mlt by (simp add: element_at_def)
    show ?thesis
    proof (cases "proj (lut ! unat ?mid) = target")
      case True
      then show ?thesis using \<open>l \<le> r\<close> ea by (subst search_from.simps) (simp add: Let_def)
    next
      case ne: False
      show ?thesis
      proof (cases "if order = INCREASING then target < proj (lut ! unat ?mid)
                    else \<not> target < proj (lut ! unat ?mid)")
        case goLeft: True
        with first mlt ne have "unat ?mid \<noteq> 0" by blast
        then have m0: "?mid \<noteq> 0" by (metis unat_0)
        have ud: "unat (?mid - 1) = unat ?mid - 1" using m0 by (rule dec_unat)
        have "\<exists>b. search_from lut target proj order result l (?mid - 1) = Some (Inr b)"
          using um ud lr mlt \<open>unat ?mid \<noteq> 0\<close> by (intro less.hyps) linarith+
        then show ?thesis using \<open>l \<le> r\<close> ea ne goLeft
          by (subst search_from.simps) (simp add: Let_def)
      next
        case goRight: False
        have ui: "unat (?mid + 1) = unat ?mid + 1" using mlt len by (intro inc_unat) linarith
        have "\<exists>b. search_from lut target proj order result (?mid + 1) r = Some (Inr b)"
          using um ui lr less.prems by (intro less.hyps) linarith+
        then show ?thesis using \<open>l \<le> r\<close> ea ne goRight
          by (subst search_from.simps) (simp add: Let_def)
      qed
    qed
  qed
qed

lemma search_from_beyond_last:
  assumes len: "0 < length lut" "length lut \<le> 65535"
    and beyond: "\<forall>j < length lut. proj (lut ! j) \<noteq> target \<and>
                 \<not> (if order = INCREASING then target < proj (lut ! j)
                    else \<not> target < proj (lut ! j))"
    and r: "unat r = length lut - 1"
  shows "unat l \<le> length lut \<Longrightarrow>
         search_from lut target proj order result l r
           = Some (Inr (bracketing (array_size lut) result (array_size lut) r))"
proof (induction "length lut - unat l" arbitrary: l rule: less_induct)
  case less
  show ?case
  proof (cases "l \<le> r")
    case False
    then have "unat l > unat r" by (simp add: word_le_nat_alt)
    then have "unat l = length lut" using less.prems r by linarith
    then have "l = array_size lut" by (metis array_size_def of_nat_unat ucast_id)
    then show ?thesis using False by (subst search_from.simps) simp
  next
    case True
    let ?mid = "l + (r - l) div 2"
    have um: "unat ?mid = unat l + (unat r - unat l) div 2" using True by (rule mid_unat)
    have lr: "unat l \<le> unat r" using True by (simp add: word_le_nat_alt)
    have mlt: "unat ?mid < length lut" using um r len lr by linarith
    have ea: "element_at lut ?mid = Inr (lut ! unat ?mid)" using mlt by (simp add: element_at_def)
    have ne: "proj (lut ! unat ?mid) \<noteq> target"
      and goRight: "\<not> (if order = INCREASING then target < proj (lut ! unat ?mid)
                    else \<not> target < proj (lut ! unat ?mid))"
      using beyond mlt by blast+
    have ui: "unat (?mid + 1) = unat ?mid + 1" using mlt len by (intro inc_unat) linarith
    have "search_from lut target proj order result (?mid + 1) r
            = Some (Inr (bracketing (array_size lut) result (array_size lut) r))"
      using um ui lr mlt by (intro less.hyps) linarith+
    then show ?thesis using True ea ne goRight
      by (subst search_from.simps) (simp add: Let_def)
  qed
qed

lemma binarySearchLut_returns:
  assumes om: "order_matches proj lut order"
    and len: "0 < length lut" "length lut \<le> 65535"
    and inc: "strictly_increasing proj lut \<longrightarrow> proj (lut ! 0) \<le> target"
    and dec: "strictly_decreasing proj lut \<longrightarrow> target \<le> proj (lut ! 0)"
  shows "\<exists>b. binarySearchLut lut target proj order = Some (Inr b)"
proof -
  obtain order' where d: "determine_order lut proj order = Inr order'" and na: "order' \<noteq> AUTO"
    and oi: "order' = INCREASING \<Longrightarrow> strictly_increasing proj lut"
    and od: "order' = DECREASING \<Longrightarrow> strictly_decreasing proj lut"
    using determine_order_matches[OF om len(2)] by blast
  have first: "\<forall>j < length lut. proj (lut ! j) \<noteq> target \<longrightarrow>
                 (if order' = INCREASING then target < proj (lut ! j)
                  else \<not> target < proj (lut ! j)) \<longrightarrow> j \<noteq> 0"
  proof (cases order')
    case INCREASING
    then show ?thesis using inc oi by (auto intro!: Nat.gr0I)
  next
    case DECREASING
    then show ?thesis using dec od by (auto intro!: Nat.gr0I)
  qed (use na in simp)
  have "unat (array_size lut - 1) < length lut"
    using last_index_unat[OF len] len(1) by linarith
  then have "\<exists>b. search_from lut target proj order' (new_LutBracket\<lparr> outOfRange := True \<rparr>)
                 0 (array_size lut - 1) = Some (Inr b)"
    by (rule search_from_returns[OF len(2) first])
  then show ?thesis by (simp add: binarySearchLut_def d)
qed

lemma binarySearchLut_beyond_last:
  assumes om: "order_matches proj lut order"
    and len: "2 \<le> length lut" "length lut \<le> 65535"
    and inc: "strictly_increasing proj lut \<longrightarrow> proj (lut ! (length lut - 1)) < target"
    and dec: "strictly_decreasing proj lut \<longrightarrow> target < proj (lut ! (length lut - 1))"
  shows "binarySearchLut lut target proj order
           = Some (Inr \<lparr> lowerIdx = array_size lut - 2, upperIdx = array_size lut - 1,
                          exactIdx = SIZE_MAX, foundExact = False, outOfRange = True,
                          clamped = True \<rparr>)"
proof -
  have pos: "0 < length lut" using len(1) by linarith
  obtain order' where d: "determine_order lut proj order = Inr order'" and na: "order' \<noteq> AUTO"
    and oi: "order' = INCREASING \<Longrightarrow> strictly_increasing proj lut"
    and od: "order' = DECREASING \<Longrightarrow> strictly_decreasing proj lut"
    using determine_order_matches[OF om len(2)] by blast
  have beyond: "\<forall>j < length lut. proj (lut ! j) \<noteq> target \<and>
                 \<not> (if order' = INCREASING then target < proj (lut ! j)
                    else \<not> target < proj (lut ! j))"
  proof (cases order')
    case INCREASING
    show ?thesis
    proof (intro allI impI)
      fix j assume j: "j < length lut"
      have "\<not> proj (lut ! (length lut - 1)) < proj (lut ! j)"
        using increasing_nth[OF oi[OF INCREASING], of "length lut - 1" j] j pos by simp
      then have "proj (lut ! j) < target"
        using inc oi[OF INCREASING] by auto
      then show "proj (lut ! j) \<noteq> target \<and>
                 \<not> (if order' = INCREASING then target < proj (lut ! j)
                    else \<not> target < proj (lut ! j))"
        using INCREASING by auto
    qed
  next
    case DECREASING
    show ?thesis
    proof (intro allI impI)
      fix j assume j: "j < length lut"
      have "\<not> proj (lut ! j) < proj (lut ! (length lut - 1))"
        using decreasing_nth[OF od[OF DECREASING], of "length lut - 1" j] j pos by simp
      then have "target < proj (lut ! j)"
        using dec od[OF DECREASING] by auto
      then show "proj (lut ! j) \<noteq> target \<and>
                 \<not> (if order' = INCREASING then target < proj (lut ! j)
                    else \<not> target < proj (lut ! j))"
        using DECREASING by auto
    qed
  qed (use na in simp)
  have r: "unat (array_size lut - 1) = length lut - 1" by (rule last_index_unat[OF pos len(2)])
  have sf: "search_from lut target proj order' (new_LutBracket\<lparr> outOfRange := True \<rparr>)
              0 (array_size lut - 1)
            = Some (Inr (bracketing (array_size lut) (new_LutBracket\<lparr> outOfRange := True \<rparr>)
                           (array_size lut) (array_size lut - 1)))"
    by (rule search_from_beyond_last[OF pos len(2) beyond r]) simp
  have nz: "array_size lut \<noteq> 0"
    using array_size_unat[OF len(2)] pos by (metis less_numeral_extra(3) unat_0)
  show ?thesis
    by (simp only: binarySearchLut_def d sum.case sf)
       (simp add: bracketing_def nz new_LutBracket_def)
qed

lemma convertToTemperature_x10_below_minimum:
  assumes sd: "strictly_decreasing resistance_x10 NTC_LUT"
    and len: "2 \<le> length NTC_LUT" "length NTC_LUT \<le> 65535"
    and r0: "r \<noteq> 0"
    and below: "r < resistance_x10 (NTC_LUT ! (length NTC_LUT - 1))"
  shows "convertToTemperature_x10 NTC_LUT r
           = Some (Inr (temperature_x10 (NTC_LUT ! (length NTC_LUT - 1))))"
proof -
  have pos: "0 < length NTC_LUT" using len(1) by linarith
  have om: "order_matches resistance_x10 NTC_LUT DECREASING"
    using sd by (simp add: order_matches_def)
  have ninc: "\<not> strictly_increasing resistance_x10 NTC_LUT"
  proof
    assume si: "strictly_increasing resistance_x10 NTC_LUT"
    have l2: "0 < length NTC_LUT" "1 < length NTC_LUT" using len(1) by linarith+
    have "resistance_x10 (NTC_LUT ! 0) < resistance_x10 (NTC_LUT ! 1)"
      using increasing_nth[OF si l2] by simp
    moreover have "resistance_x10 (NTC_LUT ! 1) < resistance_x10 (NTC_LUT ! 0)"
      using decreasing_nth[OF sd l2] by simp
    ultimately show False by simp
  qed
  have b: "binarySearchLut NTC_LUT r resistance_x10 DECREASING
           = Some (Inr \<lparr> lowerIdx = array_size NTC_LUT - 2, upperIdx = array_size NTC_LUT - 1,
                          exactIdx = SIZE_MAX, foundExact = False, outOfRange = True,
                          clamped = True \<rparr>)"
    using ninc below by (intro binarySearchLut_beyond_last[OF om len]) simp_all
  have e0: "element_at NTC_LUT 0 = Inr (NTC_LUT ! 0)" using pos by (simp add: element_at_def)
  have eN: "element_at NTC_LUT (NTC_LUT_SIZE NTC_LUT - 1) = Inr (NTC_LUT ! (length NTC_LUT - 1))"
    using last_index_unat[OF pos len(2)] pos by (simp add: element_at_def NTC_LUT_SIZE_def)
  have "\<not> resistance_x10 (NTC_LUT ! 0) < resistance_x10 (NTC_LUT ! (length NTC_LUT - 1))"
    using decreasing_nth[OF sd, of "length NTC_LUT - 1" 0] pos by simp
  then have "\<not> resistance_x10 (NTC_LUT ! 0) < r" using below by auto
  then show ?thesis
    using r0 by (simp add: convertToTemperature_x10_def b e0 eN)
qed

lemma search_from_beyond_first:
  assumes len: "length lut \<le> 32767"
    and beyond: "\<forall>j < length lut. proj (lut ! j) \<noteq> target \<and>
                 (if order = INCREASING then target < proj (lut ! j)
                  else \<not> target < proj (lut ! j))"
  shows "unat r < length lut \<Longrightarrow>
         search_from lut target proj order result 0 r = Some (Inl (OutOfBounds 32767))"
proof (induction "unat r" arbitrary: r rule: less_induct)
  case less
  let ?mid = "r div 2"
  have um: "unat ?mid = unat r div 2" by (simp add: unat_div)
  have mlt: "unat ?mid < length lut" using um less.prems by linarith
  have ea: "element_at lut ?mid = Inr (lut ! unat ?mid)" using mlt by (simp add: element_at_def)
  have ne: "proj (lut ! unat ?mid) \<noteq> target"
    and gl: "if order = INCREASING then target < proj (lut ! unat ?mid)
             else \<not> target < proj (lut ! unat ?mid)"
    using beyond mlt by blast+
  have gi: "order = INCREASING \<Longrightarrow> target < proj (lut ! unat ?mid)"
    and gd: "order \<noteq> INCREASING \<Longrightarrow> \<not> target < proj (lut ! unat ?mid)"
    using gl by (simp_all split: if_splits)
  have step: "search_from lut target proj order result 0 r
                = search_from lut target proj order result 0 (?mid - 1)"
    using ea ne gi gd by (subst search_from.simps) (auto simp: Let_def)
  show ?case
  proof (cases "?mid = 0")
    case True
    have wrapped: "search_from lut target proj order result 0 (0 - 1)
                     = Some (Inl (OutOfBounds 32767))"
      using len by (subst search_from.simps) (simp add: element_at_def Let_def)
    show ?thesis using step True wrapped by simp
  next
    case False
    then have ud: "unat (?mid - 1) = unat ?mid - 1" by (rule dec_unat)
    have "unat ?mid \<noteq> 0" using False by (metis unat_0 word_unat_eq_iff)
    then have "search_from lut target proj order result 0 (?mid - 1)
                 = Some (Inl (OutOfBounds 32767))"
      using um ud mlt by (intro less.hyps) linarith+
    then show ?thesis using step by simp
  qed
qed

lemma binarySearchLut_beyond_first:
  assumes om: "order_matches proj lut order"
    and len: "2 \<le> length lut" "length lut \<le> 32767"
    and inc: "strictly_increasing proj lut \<longrightarrow> target < proj (lut ! 0)"
    and dec: "strictly_decreasing proj lut \<longrightarrow> proj (lut ! 0) < target"
  shows "binarySearchLut lut target proj order = Some (Inl (OutOfBounds 32767))"
proof -
  have pos: "0 < length lut" and l16: "length lut \<le> 65535" using len by linarith+
  obtain order' where d: "determine_order lut proj order = Inr order'" and na: "order' \<noteq> AUTO"
    and oi: "order' = INCREASING \<Longrightarrow> strictly_increasing proj lut"
    and od: "order' = DECREASING \<Longrightarrow> strictly_decreasing proj lut"
    using determine_order_matches[OF om l16] by blast
  have beyond: "\<forall>j < length lut. proj (lut ! j) \<noteq> target \<and>
                 (if order' = INCREASING then target < proj (lut ! j)
                  else \<not> target < proj (lut ! j))"
  proof (cases order')
    case INCREASING
    show ?thesis
    proof (intro allI impI)
      fix j assume j: "j < length lut"
      have "\<not> proj (lut ! j) < proj (lut ! 0)"
        using increasing_nth[OF oi[OF INCREASING], of j 0] j pos by simp
      then have "target < proj (lut ! j)"
        using inc oi[OF INCREASING] by auto
      then show "proj (lut ! j) \<noteq> target \<and>
                 (if order' = INCREASING then target < proj (lut ! j)
                  else \<not> target < proj (lut ! j))"
        using INCREASING by auto
    qed
  next
    case DECREASING
    show ?thesis
    proof (intro allI impI)
      fix j assume j: "j < length lut"
      have "\<not> proj (lut ! 0) < proj (lut ! j)"
        using decreasing_nth[OF od[OF DECREASING], of j 0] j pos by simp
      then have "proj (lut ! j) < target"
        using dec od[OF DECREASING] by auto
      then show "proj (lut ! j) \<noteq> target \<and>
                 (if order' = INCREASING then target < proj (lut ! j)
                  else \<not> target < proj (lut ! j))"
        using DECREASING by auto
    qed
  qed (use na in simp)
  have "unat (array_size lut - 1) < length lut"
    using last_index_unat[OF pos l16] pos by linarith
  then have "search_from lut target proj order' (new_LutBracket\<lparr> outOfRange := True \<rparr>)
               0 (array_size lut - 1) = Some (Inl (OutOfBounds 32767))"
    by (rule search_from_beyond_first[OF len(2) beyond])
  then show ?thesis by (simp only: binarySearchLut_def d sum.case)
qed

text \<open>
  C1. A resistance above the table's maximum sends the search left at every step. At
  \<open>mid = 0\<close> the assignment \<open>right = mid - 1\<close> wraps to \<open>SIZE_MAX\<close>, the loop condition
  \<open>left <= right\<close> still holds, and the next probe reads \<open>lut[32767]\<close>, outside the table:
  neither \<open>binarySearchLut\<close> nor \<open>convertToTemperature_x10\<close> returns the colder edge.
\<close>

theorem above_max_resistance_reads_out_of_bounds:
  "binarySearchLut example_table 2000000 resistance_x10 DECREASING = Some (Inl (OutOfBounds 32767))
   \<and> convertToTemperature_x10 example_table 2000000 = Some (Inl (OutOfBounds 32767))"
  by (simp add: convertToTemperature_x10_def binarySearchLut_def determine_order_def
      search_from.simps element_at_def array_size_def example_table_def Let_def)

text \<open>
  C2. The same wrap-around for a target below the first key of an increasing table: the search
  reads index 32767 of a three-entry table, an access outside \<open>[0, N-1]\<close>.
\<close>

theorem below_first_key_reads_out_of_bounds:
  "binarySearchLut [10, 20, 30 :: nat] 5 (\<lambda>k. k) AUTO = Some (Inl (OutOfBounds 32767))"
  by (simp add: binarySearchLut_def determine_order_def search_from.simps element_at_def array_size_def
      Let_def)

subsection \<open>The smoothing factor after initialization\<close>

text \<open>
  C10 (as amended). \<open>begin()\<close> tests \<open>alpha_ < 0 || alpha_ > 1\<close>: for every constructor
  argument that is not a NaN, the smoothing factor after \<open>begin()\<close> lies in the closed interval
  \<open>[0, 1]\<close>; an argument in \<open>[0, 1]\<close>, 0 included, is kept unchanged and every other one is
  replaced by 0.5.
\<close>

theorem begin_EmaFilter_closed_interval:
  "a \<noteq> NaN \<longrightarrow>
     in_closed_unit_interval (alpha (begin_EmaFilter (new_EmaFilter a v)))
     \<and> alpha (begin_EmaFilter (new_EmaFilter a v))
           = (if in_closed_unit_interval a then a else Finite 0.5)"
  by (cases a) (auto simp: begin_EmaFilter_def new_EmaFilter_def)

theorem begin_EmaFilter_closed_interval_witness:
  "Finite 1.5 \<noteq> NaN
   \<and> alpha (begin_EmaFilter (new_EmaFilter (Finite 1.5) (0 :: int16_t))) = Finite 0.5
   \<and> alpha (begin_EmaFilter (new_EmaFilter (Finite 0.15) (0 :: int16_t))) = Finite 0.15"
  using begin_EmaFilter_closed_interval[of "Finite 1.5" "0 :: int16_t"]
    begin_EmaFilter_closed_interval[of "Finite 0.15" "0 :: int16_t"]
  by simp

text \<open>
  C10 as stated fails for the constructor argument 0: it is outside \<open>(0, 1]\<close>, yet \<open>begin()\<close>
  keeps it, and the factor after initialization is 0.
\<close>

theorem begin_EmaFilter_keeps_zero_counterexample:
  "alpha (begin_EmaFilter (new_EmaFilter (Finite 0) (0 :: int16_t))) = Finite 0
   \<and> \<not> in_half_open_unit_interval (alpha (begin_EmaFilter (new_EmaFilter (Finite 0) (0 :: int16_t))))"
  by (simp add: begin_EmaFilter_def new_EmaFilter_def)

subsection \<open>The pipeline's read\<close>

text \<open>
  C7 (as amended). If the pipeline is not Ready, \<open>readTemperature_x10()\<close> returns -32768 and
  leaves the hardware and the filter untouched (the sampler is never invoked). If it is Ready
  and the resistance is 0 or the temperature conversion yields the sentinel, it returns -32768
  and leaves the filter's state unchanged. Otherwise it returns the unfiltered temperature when
  no filter is attached, and the filter's output, with the filter's state updated, when one is.
  For a Ready pipeline the result is the sentinel exactly when the resistance is 0, or the
  temperature conversion yields the sentinel, or the attached filter itself outputs -32768.
\<close>

theorem readTemperature_x10_outcomes:
  "(\<not> Ready s \<longrightarrow> readTemperature_x10 s (h, f) = (SENTINEL, h, f))
   \<and> (sampler s = Some acquire \<and> resistanceConverter s = Some toResistance
        \<and> temperatureConverter s = Some toTemperature \<and> acquire h = (adc_raw, h')
        \<and> r = toResistance adc_raw \<and> t = toTemperature r \<longrightarrow>
        (r = 0 \<or> t = SENTINEL \<longrightarrow> readTemperature_x10 s (h, f) = (SENTINEL, h', f))
        \<and> (r \<noteq> 0 \<and> t \<noteq> SENTINEL \<and> sensor_filter s = None \<longrightarrow>
               readTemperature_x10 s (h, f) = (t, h', f))
        \<and> (r \<noteq> 0 \<and> t \<noteq> SENTINEL \<and> sensor_filter s = Some apply_filter \<longrightarrow>
               readTemperature_x10 s (h, f) = (fst (apply_filter t f), h', snd (apply_filter t f)))
        \<and> (fst (readTemperature_x10 s (h, f)) = SENTINEL \<longleftrightarrow>
               r = 0 \<or> t = SENTINEL
               \<or> (\<exists>apply_filter. sensor_filter s = Some apply_filter \<and> fst (apply_filter t f) = SENTINEL)))"
  by (auto simp: readTemperature_x10_def Ready_def Let_def split: option.splits prod.splits)

theorem readTemperature_x10_outcomes_witness:
  "readTemperature_x10 (new_TemperatureSensor :: (nat, int16_t) TemperatureSensor) (0, 7)
     = (SENTINEL, 0, 7)
   \<and> readTemperature_x10 (example_sensor 0 (\<lambda>t f. (t, t))) (0, 7) = (SENTINEL, 1, 7)
   \<and> readTemperature_x10 (example_sensor 512 (\<lambda>t f. (t, t))) (0, 7) = (250, 1, 250)"
  using readTemperature_x10_outcomes[of "new_TemperatureSensor :: (nat, int16_t) TemperatureSensor" 0 7]
    readTemperature_x10_outcomes[of "example_sensor 0 (\<lambda>t f. (t, t))" 0 7
      "\<lambda>n. (0, Suc n)" "\<lambda>adc_raw. if adc_raw = 0 then 0 else 50000"
      "\<lambda>r. if r = 50000 then 250 else SENTINEL" 0 1 0 SENTINEL "\<lambda>t f. (t, t)"]
    readTemperature_x10_outcomes[of "example_sensor 512 (\<lambda>t f. (t, t))" 0 7
      "\<lambda>n. (512, Suc n)" "\<lambda>adc_raw. if adc_raw = 0 then 0 else 50000"
      "\<lambda>r. if r = 50000 then 250 else SENTINEL" 512 1 50000 250 "\<lambda>t f. (t, t)"]
  by (simp add: example_sensor_def new_TemperatureSensor_def Ready_def addSampler_def
      addResistanceConverter_def addTemperatureConverter_def addFilter_def SENTINEL_def)

text \<open>
  C7 as stated fails in the direction "sentinel only on a failing read": the filter's output is
  returned unchecked. With a filter that holds its previous output, as the exponential filter
  with factor 0 does, and previous output -32768, a read whose resistance and temperature
  conversions both succeed (25.0 \<degree>C without the filter) returns -32768.
\<close>

theorem filter_output_sentinel_counterexample:
  "Ready (example_sensor 512 (\<lambda>t f. (f, f)))
   \<and> readTemperature_x10 (addFilter None (example_sensor 512 (\<lambda>t f. (f, f)))) (0, - 32768)
       = (250, 1, - 32768)
   \<and> readTemperature_x10 (example_sensor 512 (\<lambda>t f. (f, f))) (0, - 32768)
       = (- 32768, 1, - 32768)"
  by (simp add: readTemperature_x10_def example_sensor_def new_TemperatureSensor_def Ready_def
      addSampler_def addResistanceConverter_def addTemperatureConverter_def addFilter_def
      SENTINEL_def)

subsection \<open>The averaging sampler\<close>

lemma reads_settle: "reads (settle smp hw) = reads hw"
  by (simp add: settle_def delayMicroseconds_def)

lemma reads_discard:
  "reads (repeat k (discard_step source smp) hw) = reads hw + k"
  by (induction k arbitrary: hw) (simp_all add: discard_step_def analogRead_def reads_settle)

lemma accumulate_loop:
  "fst (repeat k (accumulate_step source smp) (acc, hw))
     = acc + (\<Sum>j<k. scast (source (reads hw + j)))
   \<and> reads (snd (repeat k (accumulate_step source smp) (acc, hw))) = reads hw + k"
proof (induction k arbitrary: acc hw)
  case 0
  show ?case by simp
next
  case (Suc k)
  have step: "accumulate_step source smp (acc, hw)
          = (acc + scast (source (reads hw)), settle smp (hw\<lparr> reads := Suc (reads hw) \<rparr>))"
    by (simp add: accumulate_step_def analogRead_def)
  have r: "reads (settle smp (hw\<lparr> reads := Suc (reads hw) \<rparr>)) = Suc (reads hw)"
    by (simp add: reads_settle)
  have shift: "(\<Sum>j<Suc k. (scast (source (reads hw + j)) :: uint32_t))
          = scast (source (reads hw)) + (\<Sum>j<k. scast (source (Suc (reads hw) + j)))"
    by (simp add: sum.lessThan_Suc_shift del: sum.lessThan_Suc)
  show ?case
    by (simp only: repeat.simps step Suc.IH r shift) (simp add: add.assoc)
qed

lemma scast_reading:
  assumes "v \<le> (32767 :: 16 word)"
  shows "(scast v :: uint32_t) = ucast v"
proof -
  have u: "uint v \<le> 32767" using assms by (simp add: word_le_def)
  have "sint v = signed_take_bit 15 (uint v)"
    using sint_uint[of v] by simp
  moreover have "signed_take_bit 15 (uint v) = uint v"
  proof (rule signed_take_bit_int_eq_self)
    have "(0::int) \<le> uint v" by simp
    then show "- (2 ^ 15) \<le> uint v" by (rule order_trans[rotated]) simp
    show "uint v < 2 ^ 15" using u by simp
  qed
  ultimately have "sint v = uint v" by (simp only:)
  then show ?thesis by (simp only: scast_eq ucast_eq)
qed

lemma sum_of_readings:
  assumes "\<forall>j<k. source (start + j) \<le> (32767 :: 16 word)"
  shows "(\<Sum>j<k. (scast (source (start + j)) :: uint32_t))
           = of_nat (\<Sum>j<k. unat (source (start + j)))"
proof -
  have "(\<Sum>j<k. (scast (source (start + j)) :: uint32_t)) = (\<Sum>j<k. ucast (source (start + j)))"
    using assms by (intro sum.cong) (simp_all add: scast_reading)
  then show ?thesis by simp
qed

lemma sum_of_readings_bound:
  assumes "\<forall>j<k. source (start + j) \<le> (32767 :: 16 word)"
  shows "(\<Sum>j<k. unat (source (start + j))) \<le> k * 32767"
proof -
  have "(\<Sum>j<k. unat (source (start + j))) \<le> (\<Sum>j<k. 32767)"
    using assms by (intro sum_mono) (simp add: word_le_nat_alt)
  then show ?thesis by simp
qed

lemma unat_uint8_bound: "unat (w :: uint8_t) \<le> 255"
  using unsigned_less[of w, where 'a = nat] by simp

lemma unat_widen_uint8: "unat (ucast (w :: uint8_t) :: uint32_t) = unat w"
proof -
  have "unat w < 2 ^ 32" using unat_uint8_bound[of w] by simp
  then show ?thesis by (simp add: unsigned_ucast_eq take_bit_nat_eq_self)
qed

lemma unat_narrow_uint32:
  "unat (w :: uint32_t) < 65536 \<Longrightarrow> unat (ucast w :: uint16_t) = unat w"
  by (simp add: unsigned_ucast_eq take_bit_nat_eq_self)

text \<open>
  C8. For a sampler built by the constructor and a raw source whose readings are non-negative
  \<open>int\<close> values, \<open>sample()\<close> skips the discarded acquisitions and returns the rounded mean of
  the next \<open>samples_per_read_\<close> readings, \<open>(sum + count/2) / count\<close> when the count is not 1
  and the reading itself when it is 1, clamped to 1023. No intermediate value overflows.
\<close>

theorem sample_rounded_mean:
  fixes source :: "nat \<Rightarrow> 16 word"
  assumes smp: "smp = new_AdcSampler adc_pin samples_to_average samples_to_discard settle_us"
    and start: "start = reads hw + unat (discard_N_first smp)"
    and range: "\<forall>j < unat (samples_per_read smp). source (start + j) \<le> 32767"
  shows "unat (fst (sample source smp hw))
           = min 1023 (rounded_mean (\<Sum>j < unat (samples_per_read smp). unat (source (start + j)))
                         (unat (samples_per_read smp)))"
proof -
  define n where "n = samples_per_read smp"
  define count where "count = unat n"
  define S where "S = (\<Sum>j<count. unat (source (start + j)))"
  define hw1 where "hw1 = repeat (unat (discard_N_first smp)) (discard_step source smp) hw"
  have n0: "n \<noteq> 0" by (auto simp: n_def smp new_AdcSampler_def)
  then have c1: "1 \<le> count" unfolding count_def by (simp add: unat_gt_0 Suc_le_eq)
  have c255: "count \<le> 255" unfolding count_def by (rule unat_uint8_bound)
  have r1: "reads hw1 = start" by (simp add: hw1_def reads_discard start)
  have range': "\<forall>j<count. source (start + j) \<le> 32767" using range by (simp add: count_def n_def)
  have acc: "fst (repeat count (accumulate_step source smp) (0, hw1)) = of_nat S"
    using accumulate_loop[of count source smp 0 hw1] sum_of_readings[OF range']
    by (simp add: r1 S_def)
  have Sc: "S \<le> count * 32767"
    unfolding S_def by (rule sum_of_readings_bound[OF range'])
  have Sb: "S \<le> 8355585"
  proof -
    have "count * 32767 \<le> 255 * 32767" using c255 by simp
    then show ?thesis using Sc by simp
  qed
  have uS: "unat (of_nat S :: uint32_t) = S" using Sb by (simp add: unat_of_nat)
  have un: "unat (ucast n :: uint32_t) = count" by (simp add: count_def unat_widen_uint8)
  have uh: "unat (ucast (drop_bit 1 n) :: uint32_t) = count div 2"
    by (simp add: count_def unat_widen_uint8 unat_drop_bit_eq drop_bit_eq_div unat_div)
  have usum: "unat (of_nat S + ucast (drop_bit 1 n) :: uint32_t) = S + count div 2"
  proof -
    have "S + count div 2 < 2 ^ LENGTH(32)" using Sb c255 by simp
    then have "unat (of_nat S :: uint32_t) + unat (ucast (drop_bit 1 n) :: uint32_t) < 2 ^ LENGTH(32)"
      by (simp only: uS uh)
    then have "unat (of_nat S + ucast (drop_bit 1 n) :: uint32_t)
                 = unat (of_nat S :: uint32_t) + unat (ucast (drop_bit 1 n) :: uint32_t)"
      by (simp only: unat_add_lem)
    then show ?thesis by (simp only: uS uh)
  qed
  have uq: "unat ((of_nat S + ucast (drop_bit 1 n)) div ucast n :: uint32_t) = (S + count div 2) div count"
    by (simp only: unat_div usum un)
  have qb: "(S + count div 2) div count < 32768"
  proof (rule less_mult_imp_div_less)
    have "count div 2 < count" using c1 by simp
    then show "S + count div 2 < 32768 * count" using Sc by simp
  qed
  have n1: "n = 1 \<longleftrightarrow> count = 1" unfolding count_def by (simp add: word_unat_eq_iff)
  define avg :: uint16_t where
    "avg = (if n = 1 then ucast (of_nat S :: uint32_t)
            else ucast ((of_nat S + ucast (drop_bit 1 n)) div ucast n :: uint32_t))"
  have uavg: "unat avg = rounded_mean S count"
  proof (cases "count = 1")
    case True
    then have "unat (of_nat S :: uint32_t) < 65536" using Sc by (simp add: uS)
    then have "unat (ucast (of_nat S :: uint32_t) :: uint16_t) = S"
      by (simp only: unat_narrow_uint32 uS)
    moreover have "n = 1" using True n1 by simp
    ultimately show ?thesis using True by (simp add: avg_def rounded_mean_def)
  next
    case False
    have "unat ((of_nat S + ucast (drop_bit 1 n)) div ucast n :: uint32_t) < 65536"
      unfolding uq using qb by simp
    then have "unat (ucast ((of_nat S + ucast (drop_bit 1 n)) div ucast n :: uint32_t) :: uint16_t)
                 = (S + count div 2) div count"
      by (simp only: unat_narrow_uint32 uq)
    moreover have "n \<noteq> 1" using False n1 by simp
    ultimately show ?thesis using False by (simp only: avg_def rounded_mean_def if_False)
  qed
  obtain hw2 where rep: "repeat (unat n) (accumulate_step source smp) (0, hw1) = (of_nat S, hw2)"
    using acc unfolding count_def by (metis prod.collapse)
  have res: "fst (sample source smp hw) = (if avg > MAX_VALUE then MAX_VALUE else avg)"
    unfolding sample_def Let_def hw1_def[symmetric] n_def[symmetric] rep avg_def by simp
  show ?thesis
    unfolding res using uavg
    by (simp add: MAX_VALUE_eq word_less_nat_alt S_def count_def n_def min_def)
qed

text \<open>
  The specification's example: source \<open>[10,10,10,10, 20,20,20,20]\<close>, discard 4, average 4;
  the result is 20 for every settle delay.
\<close>

theorem sample_rounded_mean_witness:
  "\<forall>settle_us.
     fst (sample example_source (new_AdcSampler 0 4 4 settle_us) \<lparr> reads = 0, elapsed_us = 0 \<rparr>) = 20"
proof
  fix settle_us :: uint8_t
  let ?smp = "new_AdcSampler 0 4 4 settle_us"
  let ?hw = "\<lparr> reads = 0, elapsed_us = 0 \<rparr>"
  have n: "unat (samples_per_read ?smp) = 4" and d: "unat (discard_N_first ?smp) = 4"
    by (simp_all add: new_AdcSampler_def)
  have vals: "example_source (4 + j) = 20" if "j < 4" for j
  proof -
    from that have "j = 0 \<or> j = 1 \<or> j = 2 \<or> j = 3" by arith
    then show ?thesis by (auto simp: example_source_def)
  qed
  have range: "\<forall>j < unat (samples_per_read ?smp). example_source (4 + j) \<le> 32767"
    by (simp add: n vals)
  have total: "(\<Sum>j < 4. unat (example_source (4 + j))) = 80"
    by (simp add: vals)
  have "unat (fst (sample example_source ?smp ?hw)) = 20"
    using sample_rounded_mean[of ?smp 0 4 4 settle_us 4 ?hw example_source] range
    by (simp add: d total n rounded_mean_def)
  then show "fst (sample example_source ?smp ?hw) = 20"
    by (simp add: word_unat_eq_iff)
qed

end
